theory Spec2Isabelle
  imports Complex_Main "HOL-Library.AList" "HOL-Library.Char_ord" "HOL-Library.List_Lexorder"
begin

section \<open>Session, OAuth-state and repair layer of headshotai-server\<close>

text \<open>
  The development embeds \<^verbatim>\<open>server/auth/session_manager.py\<close>,
  \<^verbatim>\<open>server/auth/state_manager.py\<close> and
  \<^verbatim>\<open>crons/session_cleanup/session_cleanup.py\<close>.

  Conventions of the embedding.
  \<^item> \<^verbatim>\<open>time.time()\<close> is an explicit argument \<open>now\<close>, a rational number of seconds;
    \<^verbatim>\<open>int(x)\<close> on such a number truncates towards zero (\<open>py_int\<close>).
  \<^item> The module globals (\<^verbatim>\<open>_redis\<close>, \<^verbatim>\<open>MAX_USER_SESSIONS\<close>, ...) are the fields of
    a configuration record; \<^verbatim>\<open>if _redis:\<close> is the test \<open>use_redis cfg\<close>.
  \<^item> The in-process dictionaries are maps. The Redis database is two keyspaces, one per
    record-kind tag: string keys \<^verbatim>\<open><prefix>:sess:<id>\<close> holding a value and the instant
    at which the key expires, and sorted-set keys \<^verbatim>\<open><prefix>:usess:<idx>\<close>. Both are
    association lists indexed by the identifier after the tag, so that \<^verbatim>\<open>KEYS\<close> can
    enumerate them. A string key is visible to \<^verbatim>\<open>GET\<close>, \<^verbatim>\<open>EXISTS\<close> and \<^verbatim>\<open>KEYS\<close> at
    time \<open>now\<close> iff \<open>now\<close> is before its expiry instant; a sorted set with no member
    does not exist, as in Redis.
  \<^item> \<^verbatim>\<open>json.dumps\<close> followed by \<^verbatim>\<open>json.loads\<close> is the identity on the stored records.
  \<^item> Redis commands do not raise: the \<^verbatim>\<open>except\<close> branches for an unavailable
    backend are outside the model.
\<close>

subsection \<open>Python helpers\<close>

definition py_int :: "rat \<Rightarrow> int" where
  "py_int x = (if 0 \<le> x then \<lfloor>x\<rfloor> else \<lceil>x\<rceil>)"

text \<open>Truthiness of an optional string: \<^verbatim>\<open>None\<close> and \<^verbatim>\<open>''\<close> are false.\<close>

definition truthy :: "string option \<Rightarrow> bool" where
  "truthy s = (case s of None \<Rightarrow> False | Some v \<Rightarrow> v \<noteq> [])"

text \<open>\<^verbatim>\<open>xs[i:]\<close> with Python's treatment of a negative or too large start.\<close>

definition py_slice_from :: "int \<Rightarrow> 'a list \<Rightarrow> 'a list" where
  "py_slice_from i xs =
     (let n = int (length xs);
          s = (if i < 0 then max 0 (n + i) else min i n)
      in drop (nat s) xs)"

text \<open>\<^verbatim>\<open>str.lower\<close> and \<^verbatim>\<open>str.strip\<close> on the ASCII range.\<close>

definition lower_char :: "char \<Rightarrow> char" where
  "lower_char c =
     (if CHR ''A'' \<le> c \<and> c \<le> CHR ''Z'' then char_of (of_char c + (32::nat)) else c)"

definition lower :: "string \<Rightarrow> string" where
  "lower s = map lower_char s"

definition is_space :: "char \<Rightarrow> bool" where
  "is_space c = (let n = (of_char c :: nat) in (9 \<le> n \<and> n \<le> 13) \<or> (28 \<le> n \<and> n \<le> 32))"

definition strip :: "string \<Rightarrow> string" where
  "strip s = rev (dropWhile is_space (rev (dropWhile is_space s)))"

subsection \<open>Configuration and data\<close>

record config =
  use_redis :: bool
  MAX_USER_SESSIONS :: int
  SESSION_LIST_RETURN_LIMIT :: int
  SESSION_SLIDING_ENABLED :: bool
  SESSION_SLIDING_SECONDS :: int
  SESSION_ABSOLUTE_SECONDS :: int

definition SESSION_TTL_DEFAULT :: int where
  "SESSION_TTL_DEFAULT = 3600"

definition STATE_TTL :: int where
  "STATE_TTL = 600"

text \<open>
  A session payload: the keys of the dictionary that the three modules read.
  A key that is absent (or \<^verbatim>\<open>None\<close>) is \<open>None\<close>.
\<close>

record session_data =
  sub :: "string option"
  provider :: "string option"
  ts :: "rat option"
  sess_exp :: "int option"
  ua :: "string option"
  ip :: "string option"

text \<open>One entry of the list built by \<^verbatim>\<open>list_user_sessions\<close>.\<close>

record session_info =
  session_id :: string
  created_at :: "rat option"
  expires_at :: "int option"
  expired :: bool
  info_ua :: "string option"
  info_ip :: "string option"
  info_provider :: string

type_synonym zset = "(string \<times> rat) list"

record store =
  session_store :: "string \<rightharpoonup> session_data"
  user_sessions :: "string \<rightharpoonup> string list"
  redis_sess :: "(string \<times> session_data \<times> rat) list"
  redis_usess :: "(string \<times> zset) list"

subsection \<open>Redis commands\<close>

text \<open>\<^verbatim>\<open>SET key value EX ttl\<close> at time \<open>now\<close>.\<close>

definition redis_set :: "string \<Rightarrow> 'v \<Rightarrow> int \<Rightarrow> rat \<Rightarrow> (string \<times> 'v \<times> rat) list \<Rightarrow> (string \<times> 'v \<times> rat) list" where
  "redis_set k v ttl now ks = AList.update k (v, now + of_int ttl) ks"

definition redis_get :: "string \<Rightarrow> rat \<Rightarrow> (string \<times> 'v \<times> rat) list \<Rightarrow> 'v option" where
  "redis_get k now ks =
     (case map_of ks k of
        None \<Rightarrow> None
      | Some (v, deadline) \<Rightarrow> if now < deadline then Some v else None)"

definition redis_exists :: "string \<Rightarrow> rat \<Rightarrow> (string \<times> 'v \<times> rat) list \<Rightarrow> bool" where
  "redis_exists k now ks = (redis_get k now ks \<noteq> None)"

definition redis_keys :: "rat \<Rightarrow> (string \<times> 'v \<times> rat) list \<Rightarrow> string list" where
  "redis_keys now ks = map fst (filter (\<lambda>(k, v, deadline). now < deadline) ks)"

text \<open>
  A sorted set is the list of its (member, score) pairs in Redis order: by score, and
  by member among equal scores.
\<close>

fun zinsert :: "string \<times> rat \<Rightarrow> zset \<Rightarrow> zset" where
  "zinsert e [] = [e]"
| "zinsert (m, s) ((m', s') # z) =
     (if s < s' \<or> (s = s' \<and> m < m') then (m, s) # (m', s') # z
      else (m', s') # zinsert (m, s) z)"

definition zget :: "string \<Rightarrow> (string \<times> zset) list \<Rightarrow> zset" where
  "zget k zs = (case map_of zs k of None \<Rightarrow> [] | Some z \<Rightarrow> z)"

definition zput :: "string \<Rightarrow> zset \<Rightarrow> (string \<times> zset) list \<Rightarrow> (string \<times> zset) list" where
  "zput k z zs = (if z = [] then AList.delete k zs else AList.update k z zs)"

definition zadd :: "string \<Rightarrow> string \<Rightarrow> rat \<Rightarrow> (string \<times> zset) list \<Rightarrow> (string \<times> zset) list" where
  "zadd k m s zs = zput k (zinsert (m, s) (filter (\<lambda>(m', s'). m' \<noteq> m) (zget k zs))) zs"

definition zcard :: "string \<Rightarrow> (string \<times> zset) list \<Rightarrow> int" where
  "zcard k zs = int (length (zget k zs))"

definition zrange :: "string \<Rightarrow> int \<Rightarrow> int \<Rightarrow> (string \<times> zset) list \<Rightarrow> string list" where
  "zrange k start stop zs =
     (let z = zget k zs;
          n = int (length z);
          s = (if start < 0 then max 0 (n + start) else start);
          e = (if stop < 0 then n + stop else min stop (n - 1))
      in if s > e \<or> s \<ge> n then []
         else take (nat (e - s + 1)) (drop (nat s) (map fst z)))"

definition zrem :: "string \<Rightarrow> string list \<Rightarrow> (string \<times> zset) list \<Rightarrow> (string \<times> zset) list" where
  "zrem k ms zs = zput k (filter (\<lambda>(m, s). m \<notin> set ms) (zget k zs)) zs"

definition zdelete :: "string \<Rightarrow> (string \<times> zset) list \<Rightarrow> (string \<times> zset) list" where
  "zdelete k zs = AList.delete k zs"

subsection \<open>\<^verbatim>\<open>SessionManager\<close>\<close>

text \<open>
  \<^verbatim>\<open>_enforce_max_sessions_memory\<close>: the \<^verbatim>\<open>while len(lst) > MAX_USER_SESSIONS\<close> loop
  pops the head of the list and the record of the popped id.
\<close>

fun enforce_loop :: "int \<Rightarrow> string list \<Rightarrow> (string \<rightharpoonup> session_data)
    \<Rightarrow> string list \<times> (string \<rightharpoonup> session_data)" where
  "enforce_loop cap [] recs = ([], recs)"
| "enforce_loop cap (remove_id # lst) recs =
     (if int (length (remove_id # lst)) > cap then enforce_loop cap lst (recs(remove_id := None))
      else (remove_id # lst, recs))"

definition enforce_max_sessions_memory :: "config \<Rightarrow> store \<Rightarrow> string \<Rightarrow> store" where
  "enforce_max_sessions_memory cfg st idx =
     (if MAX_USER_SESSIONS cfg > 0 then
        (case user_sessions st idx of
           None \<Rightarrow> st
         | Some lst \<Rightarrow>
             (let (lst', recs') = enforce_loop (MAX_USER_SESSIONS cfg) lst (session_store st)
              in st\<lparr>user_sessions := (user_sessions st)(idx \<mapsto> lst'), session_store := recs'\<rparr>))
      else st)"

definition setdefault_append :: "string \<Rightarrow> string \<Rightarrow> (string \<rightharpoonup> string list) \<Rightarrow> (string \<rightharpoonup> string list)" where
  "setdefault_append k x m = m(k \<mapsto> (case m k of None \<Rightarrow> [] | Some lst \<Rightarrow> lst) @ [x])"

text \<open>
  \<^verbatim>\<open>save_session\<close>. The result is \<open>None\<close> when the call does not return. In memory mode
  the body runs under \<^verbatim>\<open>with _lock\<close>, and for a payload with a truthy \<^verbatim>\<open>sub\<close> it calls
  \<^verbatim>\<open>_enforce_max_sessions_memory\<close> there; with \<^verbatim>\<open>MAX_USER_SESSIONS > 0\<close> that function
  acquires \<^verbatim>\<open>_lock\<close> again, and a \<^verbatim>\<open>threading.Lock\<close> is not reentrant: the thread waits
  for itself. With the cap off the nested call takes no lock and changes nothing.
\<close>

definition save_session :: "config \<Rightarrow> store \<Rightarrow> string \<Rightarrow> session_data \<Rightarrow> int \<Rightarrow> rat \<Rightarrow> store option" where
  "save_session cfg st sid data exp_arg now =
     (let ttl = (if exp_arg \<noteq> 0 then max 60 (exp_arg - py_int now) else SESSION_TTL_DEFAULT)
      in if use_redis cfg then
           Some (st\<lparr>redis_sess := redis_set sid data ttl now (redis_sess st)\<rparr>)
         else
           (let st1 = st\<lparr>session_store := (session_store st)(sid \<mapsto> data)\<rparr>
            in if truthy (sub data) then
                 (if MAX_USER_SESSIONS cfg > 0 then None
                  else Some (enforce_max_sessions_memory cfg
                         (st1\<lparr>user_sessions := setdefault_append (the (sub data)) sid (user_sessions st1)\<rparr>)
                         (the (sub data))))
               else Some st1))"

definition get_session :: "config \<Rightarrow> store \<Rightarrow> string \<Rightarrow> rat \<Rightarrow> session_data option" where
  "get_session cfg st sid now =
     (if use_redis cfg then redis_get sid now (redis_sess st) else session_store st sid)"

definition delete_session :: "config \<Rightarrow> store \<Rightarrow> string \<Rightarrow> store" where
  "delete_session cfg st sid =
     (if use_redis cfg then st\<lparr>redis_sess := AList.delete sid (redis_sess st)\<rparr>
      else
        (case session_store st sid of
           None \<Rightarrow> st
         | Some sess \<Rightarrow>
             (let st1 = st\<lparr>session_store := (session_store st)(sid := None)\<rparr>
              in if truthy (sub sess) then
                   (case user_sessions st1 (the (sub sess)) of
                      None \<Rightarrow> st1
                    | Some lst \<Rightarrow>
                        (let lst' = filter (\<lambda>s. s \<noteq> sid) lst
                         in if lst' = []
                            then st1\<lparr>user_sessions := (user_sessions st1)(the (sub sess) := None)\<rparr>
                            else st1\<lparr>user_sessions := (user_sessions st1)(the (sub sess) \<mapsto> lst')\<rparr>))
                 else st1)))"

text \<open>
  \<^verbatim>\<open>refresh_session_if_needed\<close> returns the new expiry (or \<^verbatim>\<open>None\<close>); it also assigns
  \<^verbatim>\<open>data['exp']\<close> in the caller's dictionary, so the payload is returned with the store.
  A missing or zero \<^verbatim>\<open>exp\<close> is falsy and replaced by \<^verbatim>\<open>int(now + SESSION_TTL_DEFAULT)\<close>.
  The outer option is \<open>None\<close> when the call does not return, which happens only inside
  \<^verbatim>\<open>save_session\<close>.
\<close>

definition refresh_session_if_needed ::
    "config \<Rightarrow> store \<Rightarrow> string \<Rightarrow> session_data \<Rightarrow> rat \<Rightarrow> (int option \<times> session_data \<times> store) option" where
  "refresh_session_if_needed cfg st sid data now =
     (if \<not> SESSION_SLIDING_ENABLED cfg then Some (None, data, st)
      else
        (let cur_exp = (case sess_exp data of
                          None \<Rightarrow> py_int (now + of_int SESSION_TTL_DEFAULT)
                        | Some e \<Rightarrow> if e \<noteq> 0 then e else py_int (now + of_int SESSION_TTL_DEFAULT))
         in if of_int cur_exp \<le> now then Some (None, data, st)
            else
              (let remaining = of_int cur_exp - now;
                   candidate = py_int (now + of_int (SESSION_SLIDING_SECONDS cfg));
                   new_exp_candidate =
                     (if SESSION_ABSOLUTE_SECONDS cfg > 0 then
                        (let absolute_deadline =
                               py_int ((case ts data of None \<Rightarrow> now | Some t \<Rightarrow> t)
                                       + of_int (SESSION_ABSOLUTE_SECONDS cfg))
                         in if candidate > absolute_deadline then absolute_deadline else candidate)
                      else candidate)
               in if remaining > of_int (SESSION_SLIDING_SECONDS cfg) / 2 \<and> new_exp_candidate \<le> cur_exp
                  then Some (None, data, st)
                  else
                    (let data' = data\<lparr>sess_exp := Some new_exp_candidate\<rparr>
                     in case save_session cfg st sid data' new_exp_candidate now of
                          None \<Rightarrow> None
                        | Some st' \<Rightarrow> Some (Some new_exp_candidate, data', st')))))"

definition user_index_id :: "string option \<Rightarrow> string option \<Rightarrow> string option" where
  "user_index_id email sub_arg =
     (let eid = strip (lower (case email of None \<Rightarrow> [] | Some e \<Rightarrow> e))
      in if eid \<noteq> [] then Some eid else sub_arg)"

text \<open>The \<^verbatim>\<open>for sid in old: delete_session(sid)\<close> loop.\<close>

definition delete_sessions :: "config \<Rightarrow> store \<Rightarrow> string list \<Rightarrow> store" where
  "delete_sessions cfg st sids = fold (\<lambda>sid s. delete_session cfg s sid) sids st"

definition add_session_to_user ::
    "config \<Rightarrow> store \<Rightarrow> string option \<Rightarrow> string option \<Rightarrow> string \<Rightarrow> rat \<Rightarrow> store" where
  "add_session_to_user cfg st email sub_arg sid t =
     (let idx_opt = user_index_id email sub_arg
      in if \<not> truthy idx_opt then st
         else
           (let idx = the idx_opt
            in if use_redis cfg then
                 (let st1 = st\<lparr>redis_usess := zadd idx sid t (redis_usess st)\<rparr>
                  in if MAX_USER_SESSIONS cfg > 0 then
                       (let over = zcard idx (redis_usess st1) - MAX_USER_SESSIONS cfg
                        in if over > 0 then
                             (let old = zrange idx 0 (over - 1) (redis_usess st1)
                              in if old \<noteq> [] then
                                   (let st2 = delete_sessions cfg st1 old
                                    in st2\<lparr>redis_usess := zrem idx old (redis_usess st2)\<rparr>)
                                 else st1)
                           else st1)
                     else st1)
               else
                 enforce_max_sessions_memory cfg
                   (st\<lparr>user_sessions := setdefault_append idx sid (user_sessions st)\<rparr>) idx))"

definition session_entry :: "string \<Rightarrow> session_data \<Rightarrow> rat \<Rightarrow> session_info" where
  "session_entry sid sess now =
     \<lparr>session_id = sid,
      created_at = ts sess,
      expires_at = sess_exp sess,
      expired = (case sess_exp sess of None \<Rightarrow> False | Some e \<Rightarrow> e \<noteq> 0 \<and> of_int e < now),
      info_ua = ua sess,
      info_ip = ip sess,
      info_provider = (case provider sess of None \<Rightarrow> ''unknown'' | Some p \<Rightarrow> p)\<rparr>"

text \<open>
  The loop over \<^verbatim>\<open>sids\<close>: an id whose record is missing goes to \<^verbatim>\<open>stale\<close>, the others
  yield an entry of \<^verbatim>\<open>result\<close>, both in the order of \<^verbatim>\<open>sids\<close>.
\<close>

fun collect_sessions :: "(string \<Rightarrow> session_data option) \<Rightarrow> rat \<Rightarrow> string list
    \<Rightarrow> session_info list \<times> string list" where
  "collect_sessions lookup now [] = ([], [])"
| "collect_sessions lookup now (sid # sids) =
     (let (result, stale) = collect_sessions lookup now sids
      in case lookup sid of
           None \<Rightarrow> (result, sid # stale)
         | Some sess \<Rightarrow> (session_entry sid sess now # result, stale))"

definition fetch_idx :: "config \<Rightarrow> store \<Rightarrow> string \<Rightarrow> string list" where
  "fetch_idx cfg st i =
     (let total = zcard i (redis_usess st)
      in if total = 0 then []
         else (let start = max 0 (total - SESSION_LIST_RETURN_LIMIT cfg)
               in rev (zrange i start (- 1) (redis_usess st))))"

text \<open>
  The ids read by \<^verbatim>\<open>list_user_sessions\<close> in Redis mode: the window of the identity's
  index or, when that is empty and a different \<^verbatim>\<open>sub\<close> is given, the window of the
  legacy index keyed by \<^verbatim>\<open>sub\<close>.
\<close>

definition listed_sids :: "config \<Rightarrow> store \<Rightarrow> string \<Rightarrow> string option \<Rightarrow> string list" where
  "listed_sids cfg st idx sub_arg =
     (let sids = fetch_idx cfg st idx
      in if sids = [] \<and> truthy sub_arg \<and> the sub_arg \<noteq> idx then
           (let legacy = fetch_idx cfg st (the sub_arg)
            in if legacy \<noteq> [] then legacy else sids)
         else sids)"

definition list_user_sessions ::
    "config \<Rightarrow> store \<Rightarrow> string option \<Rightarrow> string option \<Rightarrow> rat \<Rightarrow> session_info list \<times> store" where
  "list_user_sessions cfg st email sub_arg now =
     (let idx_opt = user_index_id email sub_arg
      in if \<not> truthy idx_opt then ([], st)
         else
           (let idx = the idx_opt
            in if use_redis cfg then
                 (let sids = listed_sids cfg st idx sub_arg;
                      (result, stale) = collect_sessions (\<lambda>sid. get_session cfg st sid now) now sids
                  in if stale \<noteq> [] then
                       (let zs1 = zrem idx stale (redis_usess st);
                            zs2 = (if zcard idx zs1 = 0 then zdelete idx zs1 else zs1)
                        in (result, st\<lparr>redis_usess := zs2\<rparr>))
                     else (result, st))
               else
                 (let sids = py_slice_from (- SESSION_LIST_RETURN_LIMIT cfg)
                               (case user_sessions st idx of None \<Rightarrow> [] | Some lst \<Rightarrow> lst);
                      (result, stale) = collect_sessions (\<lambda>sid. get_session cfg st sid now) now (rev sids)
                  in (result, st))))"

subsection \<open>\<^verbatim>\<open>StateManager\<close>\<close>

text \<open>The dictionary written by \<^verbatim>\<open>save_state\<close>: its three keys are always present.\<close>

record state_meta =
  redirect_uri :: string
  meta_exp :: int
  meta_provider :: string

record state_db =
  state_store :: "string \<rightharpoonup> state_meta"
  code_verifiers :: "string \<rightharpoonup> string"
  redis_state :: "(string \<times> state_meta \<times> rat) list"
  redis_codev :: "(string \<times> string \<times> rat) list"

definition save_state :: "config \<Rightarrow> state_db \<Rightarrow> string \<Rightarrow> string \<Rightarrow> string \<Rightarrow> string \<Rightarrow> rat \<Rightarrow> state_db" where
  "save_state cfg sd state uri code_verifier prov now =
     (let exp_ts = py_int (now + of_int STATE_TTL);
          state_data = \<lparr>redirect_uri = uri, meta_exp = exp_ts, meta_provider = prov\<rparr>
      in if use_redis cfg then
           sd\<lparr>redis_state := redis_set state state_data STATE_TTL now (redis_state sd),
              redis_codev := redis_set state code_verifier STATE_TTL now (redis_codev sd)\<rparr>
         else
           sd\<lparr>state_store := (state_store sd)(state \<mapsto> state_data),
              code_verifiers := (code_verifiers sd)(state \<mapsto> code_verifier)\<rparr>)"

text \<open>
  \<^verbatim>\<open>pop_state\<close>: in Redis mode the pipeline reads both keys and then deletes both; in
  memory mode both dictionaries are popped. The result is the pair returned to the
  caller, with the store after the call.
\<close>

definition pop_state :: "config \<Rightarrow> state_db \<Rightarrow> string \<Rightarrow> rat
    \<Rightarrow> (state_meta option \<times> string option) \<times> state_db" where
  "pop_state cfg sd state now =
     (if use_redis cfg then
        (let meta_raw = redis_get state now (redis_state sd);
             verifier = redis_get state now (redis_codev sd)
         in ((meta_raw, verifier),
             sd\<lparr>redis_state := AList.delete state (redis_state sd),
                redis_codev := AList.delete state (redis_codev sd)\<rparr>))
      else
        ((state_store sd state, code_verifiers sd state),
         sd\<lparr>state_store := (state_store sd)(state := None),
            code_verifiers := (code_verifiers sd)(state := None)\<rparr>))"

text \<open>
  \<^verbatim>\<open>clean_expired\<close>: every state whose \<^verbatim>\<open>exp\<close> is before \<open>now\<close> is popped from both
  dictionaries; nothing is done in Redis mode.
\<close>

definition obsolete :: "state_db \<Rightarrow> rat \<Rightarrow> string \<Rightarrow> bool" where
  "obsolete sd now s =
     (case state_store sd s of None \<Rightarrow> False | Some meta \<Rightarrow> of_int (meta_exp meta) < now)"

definition clean_expired :: "config \<Rightarrow> state_db \<Rightarrow> rat \<Rightarrow> state_db" where
  "clean_expired cfg sd now =
     (if use_redis cfg then sd
      else sd\<lparr>state_store := (\<lambda>s. if obsolete sd now s then None else state_store sd s),
              code_verifiers := (\<lambda>s. if obsolete sd now s then None else code_verifiers sd s)\<rparr>)"

subsection \<open>\<^verbatim>\<open>SessionCleanup\<close>\<close>

record cleanup_stats =
  user_sessions_checked :: nat
  user_sessions_cleaned :: nat
  orphaned_sessions_found :: nat
  orphaned_sessions_removed :: nat
  empty_user_sessions_removed :: nat
  total_sessions_checked :: nat
  valid_sessions_found :: nat

text \<open>The counters of a new \<^verbatim>\<open>SessionCleanup\<close> object.\<close>

definition init_stats :: cleanup_stats where
  "init_stats =
     \<lparr>user_sessions_checked = 0, user_sessions_cleaned = 0, orphaned_sessions_found = 0,
      orphaned_sessions_removed = 0, empty_user_sessions_removed = 0,
      total_sessions_checked = 0, valid_sessions_found = 0\<rparr>"

text \<open>
  The body of the loop over the user-index keys, for one key. \<open>dry\<close> is
  \<^verbatim>\<open>self.dry_run\<close>; the pair is the database and \<^verbatim>\<open>self.stats\<close>.
\<close>

definition cleanup_user_key :: "bool \<Rightarrow> rat \<Rightarrow> string \<Rightarrow> store \<times> cleanup_stats \<Rightarrow> store \<times> cleanup_stats" where
  "cleanup_user_key dry now user_key acc =
     (let (st, stats) = acc;
          stats1 = stats\<lparr>user_sessions_checked := user_sessions_checked stats + 1\<rparr>;
          session_ids = zrange user_key 0 (- 1) (redis_usess st)
      in if session_ids = [] then (st, stats1)
         else
           (let (valid_sessions, orphaned_sessions) =
                  partition (\<lambda>sid. redis_exists sid now (redis_sess st)) session_ids;
                stats2 = stats1\<lparr>total_sessions_checked := total_sessions_checked stats1 + length session_ids,
                                valid_sessions_found := valid_sessions_found stats1 + length valid_sessions,
                                orphaned_sessions_found := orphaned_sessions_found stats1 + length orphaned_sessions\<rparr>;
                (st3, stats3) =
                  (if orphaned_sessions \<noteq> [] \<and> \<not> dry then
                     (st\<lparr>redis_usess := zrem user_key orphaned_sessions (redis_usess st)\<rparr>,
                      stats2\<lparr>orphaned_sessions_removed := orphaned_sessions_removed stats2 + length orphaned_sessions\<rparr>)
                   else (st, stats2))
            in if valid_sessions = [] then
                 (if \<not> dry then
                    (st3\<lparr>redis_usess := zdelete user_key (redis_usess st3)\<rparr>,
                     stats3\<lparr>empty_user_sessions_removed := empty_user_sessions_removed stats3 + 1,
                            user_sessions_cleaned := user_sessions_cleaned stats3 + 1\<rparr>)
                  else (st3, stats3\<lparr>user_sessions_cleaned := user_sessions_cleaned stats3 + 1\<rparr>))
               else if orphaned_sessions \<noteq> [] then
                 (st3, stats3\<lparr>user_sessions_cleaned := user_sessions_cleaned stats3 + 1\<rparr>)
               else (st3, stats3)))"

text \<open>
  \<open>conn\<close> is the truth value of the module's \<^verbatim>\<open>_redis\<close>. The keys are enumerated once,
  before the loop.
\<close>

definition cleanup_orphaned_user_sessions :: "bool \<Rightarrow> bool \<Rightarrow> rat \<Rightarrow> store \<times> cleanup_stats \<Rightarrow> store \<times> cleanup_stats" where
  "cleanup_orphaned_user_sessions conn dry now acc =
     (if \<not> conn then acc
      else (let user_session_keys = map fst (redis_usess (fst acc))
            in fold (cleanup_user_key dry now) user_session_keys acc))"

definition cleanup_expired_sessions :: "bool \<Rightarrow> bool \<Rightarrow> int \<Rightarrow> rat \<Rightarrow> store \<times> cleanup_stats \<Rightarrow> store \<times> cleanup_stats" where
  "cleanup_expired_sessions conn dry max_age_days now acc =
     (if \<not> conn then acc
      else
        (let (st, stats) = acc;
             cutoff_timestamp = now - of_int (max_age_days * 24 * 3600);
             session_keys = redis_keys now (redis_sess st);
             expired_sessions =
               filter (\<lambda>sid. case redis_get sid now (redis_sess st) of
                                None \<Rightarrow> False
                              | Some session_json \<Rightarrow>
                                  (case ts session_json of None \<Rightarrow> 0 | Some t \<Rightarrow> t) < cutoff_timestamp)
                      session_keys
         in if expired_sessions \<noteq> [] then
              (if \<not> dry then
                 cleanup_orphaned_user_sessions conn dry now
                   (st\<lparr>redis_sess := fold AList.delete expired_sessions (redis_sess st)\<rparr>, stats)
               else (st, stats))
            else (st, stats)))"

subsection \<open>Concrete configurations and stores\<close>

text \<open>
  The default configuration with a Redis backend, and the same configuration on the
  in-process fallback; an empty store; a session payload.
\<close>

definition cfg_redis :: config where
  "cfg_redis = \<lparr>use_redis = True, MAX_USER_SESSIONS = 0, SESSION_LIST_RETURN_LIMIT = 20,
     SESSION_SLIDING_ENABLED = True, SESSION_SLIDING_SECONDS = 3600, SESSION_ABSOLUTE_SECONDS = 0\<rparr>"

definition cfg_memory :: config where
  "cfg_memory = cfg_redis\<lparr>use_redis := False\<rparr>"

definition empty_store :: store where
  "empty_store = \<lparr>session_store = Map.empty, user_sessions = Map.empty, redis_sess = [], redis_usess = []\<rparr>"

definition empty_state_db :: state_db where
  "empty_state_db = \<lparr>state_store = Map.empty, code_verifiers = Map.empty, redis_state = [], redis_codev = []\<rparr>"

definition payload :: session_data where
  "payload = \<lparr>sub = Some ''u'', provider = Some ''google'', ts = Some 0, sess_exp = Some 4000,
     ua = None, ip = None\<rparr>"

text \<open>An index with one live member and one member whose record is gone.\<close>

definition drifted_store :: store where
  "drifted_store = empty_store\<lparr>redis_sess := [(''s1'', payload, 5000)],
     redis_usess := [(''u'', [(''s1'', 1), (''s2'', 2)])]\<rparr>"

text \<open>A cap of two sessions per identity, and an index that is full under it.\<close>

definition cfg_cap2 :: config where
  "cfg_cap2 = cfg_redis\<lparr>MAX_USER_SESSIONS := 2\<rparr>"

definition full_store :: store where
  "full_store = empty_store\<lparr>
     redis_sess := [(''s1'', payload, 5000), (''s2'', payload, 5000)],
     redis_usess := [(''u'', [(''s1'', 0), (''s2'', 10)])]\<rparr>"

text \<open>
  A listing window of one entry over an index whose older member is stale, and an
  in-process index whose only member has no record.
\<close>

definition cfg_limit1 :: config where
  "cfg_limit1 = cfg_redis\<lparr>SESSION_LIST_RETURN_LIMIT := 1\<rparr>"

definition old_stale_store :: store where
  "old_stale_store = empty_store\<lparr>redis_sess := [(''s2'', payload, 5000)],
     redis_usess := [(''u'', [(''s1'', 1), (''s2'', 2)])]\<rparr>"

definition memory_stale_store :: store where
  "memory_stale_store = empty_store\<lparr>user_sessions := [''u'' \<mapsto> [''s1'']]\<rparr>"

text \<open>The cap of two on the in-process fallback.\<close>

definition cfg_memory_cap2 :: config where
  "cfg_memory_cap2 = cfg_memory\<lparr>MAX_USER_SESSIONS := 2\<rparr>"

subsection \<open>Observations used to state the properties\<close>

text \<open>
  The member ids of an identity's index, oldest first: by score in Redis mode, in
  registration order in memory mode, where the index is a plain list of ids.
\<close>

definition index_members :: "config \<Rightarrow> store \<Rightarrow> string \<Rightarrow> string list" where
  "index_members cfg st idx =
     (if use_redis cfg then map fst (zget idx (redis_usess st))
      else (case user_sessions st idx of None \<Rightarrow> [] | Some lst \<Rightarrow> lst))"

subsection \<open>Invariant used for the repair job\<close>

text \<open>Every member of every index resolves to a session key that exists at \<open>now\<close>.\<close>

definition all_live :: "rat \<Rightarrow> store \<Rightarrow> bool" where
  "all_live now st = (\<forall>k. \<forall>m \<in> fst ` set (zget k (redis_usess st)). redis_exists m now (redis_sess st))"

section \<open>Properties\<close>

subsection \<open>Redis commands\<close>

lemma redis_get_set_same:
  "redis_get k now (redis_set k v ttl t0 ks) = (if now < t0 + of_int ttl then Some v else None)"
  by (simp add: redis_get_def redis_set_def AList.update_conv')

lemma redis_get_delete_same: "redis_get k now (AList.delete k ks) = None"
  by (simp add: redis_get_def AList.delete_conv')

lemma zget_zput: "zget k' (zput k z zs) = (if k' = k then z else zget k' zs)"
  by (simp add: zget_def zput_def AList.delete_conv' AList.update_conv')

lemma zget_zdelete: "zget k' (zdelete k zs) = (if k' = k then [] else zget k' zs)"
  by (simp add: zget_def zdelete_def AList.delete_conv')

lemma zget_zrem:
  "zget k' (zrem k ms zs) = (if k' = k then filter (\<lambda>(m, s). m \<notin> set ms) (zget k zs) else zget k' zs)"
  by (simp add: zrem_def zget_zput)

lemma zrange_all: "zrange k 0 (- 1) zs = map fst (zget k zs)"
  by (cases "zget k zs") (simp_all add: zrange_def Let_def)

lemma zget_not_key: "k \<notin> fst ` set zs \<Longrightarrow> zget k zs = []"
  using map_of_eq_None_iff [of zs k] by (simp add: zget_def)

lemma set_zinsert: "set (zinsert e z) = insert e (set z)"
  by (induction e z rule: zinsert.induct) auto

lemma length_zinsert: "length (zinsert e z) = Suc (length z)"
  by (induction e z rule: zinsert.induct) auto

lemma zinsert_not_Nil: "zinsert e z \<noteq> []"
  by (induction e z rule: zinsert.induct) auto

lemma sorted_zinsert: "sorted (map snd z) \<Longrightarrow> sorted (map snd (zinsert e z))"
  by (induction e z rule: zinsert.induct) (auto simp add: set_zinsert)

lemma distinct_zinsert:
  "distinct (map fst z) \<Longrightarrow> fst e \<notin> fst ` set z \<Longrightarrow> distinct (map fst (zinsert e z))"
  by (induction e z rule: zinsert.induct) (auto simp add: set_zinsert)

lemma filter_fresh: "m \<notin> fst ` set z \<Longrightarrow> filter (\<lambda>(m', s'). m' \<noteq> m) z = z"
  by (induction z) auto

lemma filter_hd_distinct:
  "distinct (map fst z) \<Longrightarrow> z \<noteq> [] \<Longrightarrow> filter (\<lambda>(m, s). m \<notin> set [fst (hd z)]) z = tl z"
  by (cases z) (force simp add: filter_id_conv)+

lemma zget_zadd:
  "zget k' (zadd k m s zs) =
     (if k' = k then zinsert (m, s) (filter (\<lambda>(m', s'). m' \<noteq> m) (zget k zs)) else zget k' zs)"
  by (simp add: zadd_def zget_zput)

lemma zrange_first: "zget k zs \<noteq> [] \<Longrightarrow> zrange k 0 0 zs = [fst (hd (zget k zs))]"
  by (cases "zget k zs") (simp_all add: zrange_def Let_def)

lemma hd_sorted_least: "sorted (map snd z) \<Longrightarrow> x \<in> set z \<Longrightarrow> snd (hd z) \<le> snd x"
  by (cases z) auto

lemma set_tl_distinct: "distinct xs \<Longrightarrow> xs \<noteq> [] \<Longrightarrow> set (tl xs) = set xs - {hd xs}"
  by (cases xs) auto

lemma idx_u: "user_index_id None (Some ''u'') = Some ''u''"
  by (simp add: user_index_id_def strip_def lower_def)

subsection \<open>Sliding refresh\<close>

text \<open>
  Claim C9. A record whose stored expiry is at or before the current time is never
  re-extended: \<^verbatim>\<open>refresh_session_if_needed\<close> returns \<^verbatim>\<open>None\<close>, leaves the payload as it
  is and writes nothing to the store, whatever the configuration and the backend. The
  stored expiry is a present, non-zero \<^verbatim>\<open>exp\<close>: a missing or zero \<^verbatim>\<open>exp\<close> is how the
  code marks a payload without expiry, and is replaced by a default in the future.
\<close>

theorem refresh_expired_no_write:
  assumes "sess_exp data = Some e" and "e \<noteq> 0" and "of_int e \<le> now"
  shows "refresh_session_if_needed cfg st sid data now = Some (None, data, st)"
  using assms by (simp add: refresh_session_if_needed_def)

theorem refresh_expired_no_write_witness:
  "sess_exp payload = Some 4000 \<and> (4000::int) \<noteq> 0 \<and> of_int 4000 \<le> (5000::rat)
   \<and> refresh_session_if_needed cfg_redis drifted_store ''s1'' payload 5000
       = Some (None, payload, drifted_store)"
proof -
  have e: "sess_exp payload = Some 4000" by (simp add: payload_def)
  have le: "of_int 4000 \<le> (5000::rat)" by simp
  show ?thesis
    using e le refresh_expired_no_write [OF e _ le, of cfg_redis drifted_store "''s1''"] by simp
qed

text \<open>
  Claim C1, at a concrete input. The window is 3600 seconds, no absolute ceiling is
  configured, the time is 1000 and the record expires at 4000: the remaining life,
  3000 seconds, is more than half of the window. The call nevertheless rewrites the
  expiry to \<open>1000 + 3600\<close>, stores the record with the new lifetime and returns the new
  expiry. The skip needs both \<^verbatim>\<open>remaining > SESSION_SLIDING_SECONDS / 2\<close> and
  \<^verbatim>\<open>new_exp_candidate <= cur_exp\<close>, and the second fails as soon as any time has passed
  since the last rewrite.
\<close>

theorem refresh_rewrites_above_half_window:
  "of_int 4000 - (1000::rat) > of_int (SESSION_SLIDING_SECONDS cfg_redis) / 2
   \<and> refresh_session_if_needed cfg_redis empty_store ''s1'' payload 1000 =
       Some (Some 4600, payload\<lparr>sess_exp := Some 4600\<rparr>,
             empty_store\<lparr>redis_sess := [(''s1'', payload\<lparr>sess_exp := Some 4600\<rparr>, 4600)]\<rparr>)"
  by (simp add: refresh_session_if_needed_def cfg_redis_def empty_store_def payload_def py_int_def
        save_session_def redis_set_def SESSION_TTL_DEFAULT_def Let_def)

subsection \<open>Registration and the per-identity cap\<close>

lemma add_session_redis_cap:
  assumes redis: "use_redis cfg"
    and cap: "MAX_USER_SESSIONS cfg = int N" "0 < N"
    and idx: "user_index_id email sub_arg = Some idx" "idx \<noteq> []"
    and full: "length (zget idx (redis_usess st)) = N"
    and fresh: "sid \<notin> fst ` set (zget idx (redis_usess st))"
    and dist: "distinct (map fst (zget idx (redis_usess st)))"
  shows "zget idx (redis_usess (add_session_to_user cfg st email sub_arg sid t))
           = tl (zinsert (sid, t) (zget idx (redis_usess st)))
         \<and> redis_sess (add_session_to_user cfg st email sub_arg sid t)
           = AList.delete (fst (hd (zinsert (sid, t) (zget idx (redis_usess st))))) (redis_sess st)"
proof -
  let ?z = "zget idx (redis_usess st)"
  let ?z1 = "zinsert (sid, t) ?z"
  let ?zs1 = "zadd idx sid t (redis_usess st)"
  have z1: "zget idx ?zs1 = ?z1"
    using fresh by (simp add: zget_zadd filter_fresh)
  have ne: "?z1 \<noteq> []" by (rule zinsert_not_Nil)
  have card: "zcard idx ?zs1 = int N + 1"
    using full by (simp add: zcard_def z1 length_zinsert)
  have old: "zrange idx 0 0 ?zs1 = [fst (hd ?z1)]"
    using zrange_first [of idx ?zs1] ne by (simp add: z1)
  have d1: "distinct (map fst ?z1)"
    using dist fresh by (simp add: distinct_zinsert)
  have rem: "zget idx (zrem idx [fst (hd ?z1)] ?zs1) = tl ?z1"
    using filter_hd_distinct [OF d1 ne] by (simp add: zget_zrem z1)
  show ?thesis
    using redis cap idx rem
    by (simp add: add_session_to_user_def truthy_def Let_def card old delete_sessions_def
          delete_session_def)
qed

lemma enforce_loop_within: "int (length lst) \<le> cap \<Longrightarrow> enforce_loop cap lst recs = (lst, recs)"
  by (cases lst) auto

lemma enforce_loop_full:
  "int (length lst) = cap \<Longrightarrow> 0 < cap \<Longrightarrow>
   enforce_loop cap (lst @ [sid]) recs = (tl lst @ [sid], recs(hd lst := None))"
  by (cases lst) (auto simp add: enforce_loop_within)

lemma add_session_memory_cap:
  assumes mem: "\<not> use_redis cfg"
    and cap: "MAX_USER_SESSIONS cfg = int N" "0 < N"
    and idx: "user_index_id email sub_arg = Some idx" "idx \<noteq> []"
    and full: "user_sessions st idx = Some lst" "length lst = N"
  shows "user_sessions (add_session_to_user cfg st email sub_arg sid t) idx = Some (tl lst @ [sid])
         \<and> session_store (add_session_to_user cfg st email sub_arg sid t) = (session_store st)(hd lst := None)"
  using assms enforce_loop_full [of lst "int N" sid "session_store st"]
  by (simp add: add_session_to_user_def truthy_def Let_def enforce_max_sessions_memory_def
        setdefault_append_def)

text \<open>
  Claim C3 fails in memory mode, where the index is a plain list and the timestamp
  passed to \<^verbatim>\<open>add_session_to_user\<close> is not used. With a cap of 2, \<open>s1\<close> is registered with
  timestamp 100, then \<open>s2\<close> with timestamp 50, then \<open>s3\<close> with timestamp 200: the member
  evicted is \<open>s1\<close>, and \<open>s2\<close>, which has the oldest timestamp, stays. On the Redis
  backend the same three calls evict \<open>s2\<close>.
\<close>

theorem add_session_memory_order_counterexample:
  "index_members cfg_memory_cap2
     (add_session_to_user cfg_memory_cap2
        (add_session_to_user cfg_memory_cap2
           (add_session_to_user cfg_memory_cap2 empty_store None (Some ''u'') ''s1'' 100)
           None (Some ''u'') ''s2'' 50)
        None (Some ''u'') ''s3'' 200) ''u'' = [''s2'', ''s3'']
   \<and> index_members cfg_cap2
     (add_session_to_user cfg_cap2
        (add_session_to_user cfg_cap2
           (add_session_to_user cfg_cap2 empty_store None (Some ''u'') ''s1'' 100)
           None (Some ''u'') ''s2'' 50)
        None (Some ''u'') ''s3'' 200) ''u'' = [''s1'', ''s3'']"
  by (simp add: add_session_to_user_def idx_u truthy_def cfg_memory_cap2_def cfg_memory_def
        cfg_cap2_def cfg_redis_def empty_store_def index_members_def setdefault_append_def
        enforce_max_sessions_memory_def zadd_def zget_def zput_def zcard_def zrange_def zrem_def
        delete_sessions_def delete_session_def Let_def)

text \<open>
  Claim C3, amended. With a cap of \<open>N > 0\<close> sessions per identity, registering a new
  session id for an identity whose index already has \<open>N\<close> members leaves the index with
  exactly \<open>N\<close> members: the registered id joins, one member is evicted, and the session
  record of the evicted member is gone from the session store when the call returns.
  In Redis mode the evicted member carries the least timestamp score among the
  \<open>N + 1\<close> members. In memory mode the index is the list of ids in registration order,
  the timestamp is not consulted, and the evicted member is the head of the list, the
  member registered first.
\<close>

theorem add_session_evicts_oldest:
  assumes cap: "MAX_USER_SESSIONS cfg = int N" "0 < N"
    and idx: "user_index_id email sub_arg = Some idx" "idx \<noteq> []"
    and full: "length (index_members cfg st idx) = N"
    and dist: "distinct (index_members cfg st idx)"
    and fresh: "sid \<notin> set (index_members cfg st idx)"
    and order: "use_redis cfg \<longrightarrow> sorted (map snd (zget idx (redis_usess st)))"
    and st': "st' = add_session_to_user cfg st email sub_arg sid t"
  shows "\<exists>evicted.
           evicted \<in> set (index_members cfg st idx) \<union> {sid}
         \<and> set (index_members cfg st' idx) = (set (index_members cfg st idx) \<union> {sid}) - {evicted}
         \<and> length (index_members cfg st' idx) = N
         \<and> get_session cfg st' evicted now = None
         \<and> (if use_redis cfg then
               \<exists>t_ev. (evicted, t_ev) \<in> insert (sid, t) (set (zget idx (redis_usess st)))
                  \<and> (\<forall>(m, s) \<in> insert (sid, t) (set (zget idx (redis_usess st))). t_ev \<le> s)
             else evicted = hd (index_members cfg st idx))"
proof (cases "use_redis cfg")
  case True
  let ?z = "zget idx (redis_usess st)"
  let ?z1 = "zinsert (sid, t) ?z"
  have len: "length ?z = N" and d: "distinct (map fst ?z)" and fr: "sid \<notin> fst ` set ?z"
    using True full dist fresh by (simp_all add: index_members_def)
  have res: "zget idx (redis_usess st') = tl ?z1"
    and sess: "redis_sess st' = AList.delete (fst (hd ?z1)) (redis_sess st)"
    using add_session_redis_cap [OF True cap idx len fr d, of t] st' by simp_all
  have ne: "?z1 \<noteq> []" by (rule zinsert_not_Nil)
  have d1: "distinct (map fst ?z1)" using d fr by (simp add: distinct_zinsert)
  have s1: "sorted (map snd ?z1)" using order True by (simp add: sorted_zinsert)
  have hd_in: "hd ?z1 \<in> insert (sid, t) (set ?z)"
    using ne hd_in_set [of ?z1] by (simp add: set_zinsert)
  have least: "\<forall>(m, s) \<in> insert (sid, t) (set ?z). snd (hd ?z1) \<le> s"
  proof (clarify)
    fix m s assume "(m, s) \<in> insert (sid, t) (set ?z)"
    then have "(m, s) \<in> set ?z1" by (simp add: set_zinsert)
    from hd_sorted_least [OF s1 this] show "snd (hd ?z1) \<le> s" by simp
  qed
  have mem1: "set (map fst ?z1) = set (map fst ?z) \<union> {sid}"
    by (simp add: set_zinsert)
  have ne1: "map fst ?z1 \<noteq> []" using ne by simp
  have tl_set: "set (map fst (tl ?z1)) = set (map fst ?z1) - {fst (hd ?z1)}"
    using set_tl_distinct [OF d1 ne1] ne by (simp add: map_tl hd_map)
  have a: "fst (hd ?z1) \<in> set (index_members cfg st idx) \<union> {sid}"
    using hd_in True by (auto simp add: index_members_def)
  have b: "set (index_members cfg st' idx) = (set (index_members cfg st idx) \<union> {sid}) - {fst (hd ?z1)}"
    using True tl_set mem1 by (simp add: index_members_def res)
  have c: "length (index_members cfg st' idx) = N"
    using True len by (simp add: index_members_def res length_zinsert)
  have e: "get_session cfg st' (fst (hd ?z1)) now = None"
    using True by (simp add: get_session_def sess redis_get_delete_same)
  have f: "(fst (hd ?z1), snd (hd ?z1)) \<in> insert (sid, t) (set ?z)"
    using hd_in by simp
  have ex: "\<exists>t_ev. (fst (hd ?z1), t_ev) \<in> insert (sid, t) (set ?z)
                \<and> (\<forall>(m, s) \<in> insert (sid, t) (set ?z). t_ev \<le> s)"
    by (intro exI [of _ "snd (hd ?z1)"] conjI f least)
  have g: "if use_redis cfg then
             \<exists>t_ev. (fst (hd ?z1), t_ev) \<in> insert (sid, t) (set ?z)
                \<and> (\<forall>(m, s) \<in> insert (sid, t) (set ?z). t_ev \<le> s)
           else fst (hd ?z1) = hd (index_members cfg st idx)"
    using True ex by (simp only: if_True)
  show ?thesis
    by (intro exI [of _ "fst (hd ?z1)"] conjI a b c e g)
next
  case False
  obtain lst where lst: "user_sessions st idx = Some lst" and len: "length lst = N"
    using False full cap by (cases "user_sessions st idx") (auto simp add: index_members_def)
  have ne: "lst \<noteq> []" using len cap by auto
  have dl: "distinct lst" using False dist lst by (simp add: index_members_def)
  have frl: "sid \<notin> set lst" using False fresh lst by (simp add: index_members_def)
  have res: "user_sessions st' idx = Some (tl lst @ [sid])"
    and recs: "session_store st' = (session_store st)(hd lst := None)"
    using add_session_memory_cap [OF False cap idx lst len, of sid t] st' by simp_all
  have tl_set: "set (tl lst) = set lst - {hd lst}"
    using set_tl_distinct [OF dl ne] .
  have hd_in: "hd lst \<in> set lst" using ne by simp
  have a: "hd lst \<in> set (index_members cfg st idx) \<union> {sid}"
    using False lst hd_in by (simp add: index_members_def)
  have b: "set (index_members cfg st' idx) = (set (index_members cfg st idx) \<union> {sid}) - {hd lst}"
    using False lst res tl_set frl hd_in by (auto simp add: index_members_def)
  have c: "length (index_members cfg st' idx) = N"
    using False res len ne cap by (simp add: index_members_def)
  have e: "get_session cfg st' (hd lst) now = None"
    using False by (simp add: get_session_def recs)
  have f: "hd lst = hd (index_members cfg st idx)"
    using False lst by (simp add: index_members_def)
  have g: "if use_redis cfg then
             \<exists>t_ev. (hd lst, t_ev) \<in> insert (sid, t) (set (zget idx (redis_usess st)))
                \<and> (\<forall>(m, s) \<in> insert (sid, t) (set (zget idx (redis_usess st))). t_ev \<le> s)
           else hd lst = hd (index_members cfg st idx)"
    using False f by (simp only: if_False)
  show ?thesis
    by (intro exI [of _ "hd lst"] conjI a b c e g)
qed

theorem add_session_evicts_oldest_witness:
  "\<exists>evicted.
      evicted \<in> set (index_members cfg_cap2 full_store ''u'') \<union> {''s3''}
    \<and> set (index_members cfg_cap2 (add_session_to_user cfg_cap2 full_store None (Some ''u'') ''s3'' 20) ''u'')
        = (set (index_members cfg_cap2 full_store ''u'') \<union> {''s3''}) - {evicted}
    \<and> length (index_members cfg_cap2 (add_session_to_user cfg_cap2 full_store None (Some ''u'') ''s3'' 20) ''u'') = 2
    \<and> get_session cfg_cap2 (add_session_to_user cfg_cap2 full_store None (Some ''u'') ''s3'' 20) evicted 100 = None
    \<and> (if use_redis cfg_cap2 then
          \<exists>t_ev. (evicted, t_ev) \<in> insert (''s3'', 20) (set (zget ''u'' (redis_usess full_store)))
             \<and> (\<forall>(m, s) \<in> insert (''s3'', 20) (set (zget ''u'' (redis_usess full_store))). t_ev \<le> s)
        else evicted = hd (index_members cfg_cap2 full_store ''u''))"
proof -
  have members: "index_members cfg_cap2 full_store ''u'' = [''s1'', ''s2'']"
    by (simp add: index_members_def cfg_cap2_def cfg_redis_def full_store_def empty_store_def zget_def)
  have cap: "MAX_USER_SESSIONS cfg_cap2 = int 2" "0 < (2::nat)"
    by (simp_all add: cfg_cap2_def)
  have ne: "''u'' \<noteq> []" by simp
  have full: "length (index_members cfg_cap2 full_store ''u'') = 2"
    and dist: "distinct (index_members cfg_cap2 full_store ''u'')"
    and fresh: "''s3'' \<notin> set (index_members cfg_cap2 full_store ''u'')"
    by (simp_all add: members)
  have order: "use_redis cfg_cap2 \<longrightarrow> sorted (map snd (zget ''u'' (redis_usess full_store)))"
    by (simp add: full_store_def empty_store_def zget_def)
  show ?thesis
    by (rule add_session_evicts_oldest [OF cap idx_u ne full dist fresh order refl])
qed

text \<open>
  Claim C10. With \<^verbatim>\<open>MAX_USER_SESSIONS\<close> at 0 (unlimited, the default) a registration
  evicts nothing: no session record is deleted, in either backend, and every member of
  every index is still a member after the call.
\<close>

theorem add_no_cap_keeps_everything:
  assumes "MAX_USER_SESSIONS cfg = 0"
  shows "session_store (add_session_to_user cfg st email sub_arg sid t) = session_store st
       \<and> redis_sess (add_session_to_user cfg st email sub_arg sid t) = redis_sess st
       \<and> set (index_members cfg st k) \<subseteq> set (index_members cfg (add_session_to_user cfg st email sub_arg sid t) k)"
proof -
  have z: "fst ` set z \<subseteq> fst ` set (zinsert (m, s) (filter (\<lambda>(m', s'). m' \<noteq> m) z))" for z :: zset and m s
    by (force simp add: set_zinsert)
  show ?thesis
    using assms z
    by (auto simp add: add_session_to_user_def Let_def enforce_max_sessions_memory_def
          index_members_def zget_zadd setdefault_append_def split: option.splits)
qed

theorem add_no_cap_keeps_everything_witness:
  "MAX_USER_SESSIONS cfg_redis = 0
   \<and> redis_sess (add_session_to_user cfg_redis full_store None (Some ''u'') ''s3'' 20) = redis_sess full_store
   \<and> set (index_members cfg_redis full_store ''u'')
        \<subseteq> set (index_members cfg_redis (add_session_to_user cfg_redis full_store None (Some ''u'') ''s3'' 20) ''u'')"
proof -
  have cap: "MAX_USER_SESSIONS cfg_redis = 0" by (simp add: cfg_redis_def)
  show ?thesis
    using cap add_no_cap_keeps_everything [OF cap, of full_store None "Some ''u''" "''s3''" 20 "''u''"]
    by simp
qed

subsection \<open>Session lifetime\<close>







subsection \<open>Listing\<close>

lemma session_id_entry: "session_id (session_entry sid sess now) = sid"
  by (simp add: session_entry_def)

lemma collect_result:
  "map session_id (fst (collect_sessions lookup now sids)) = filter (\<lambda>sid. lookup sid \<noteq> None) sids"
  by (induction sids) (auto simp add: session_id_entry split: prod.splits option.splits)

lemma collect_stale:
  "snd (collect_sessions lookup now sids) = filter (\<lambda>sid. lookup sid = None) sids"
  by (induction sids) (auto split: prod.splits option.splits)

lemma collect_live:
  "e \<in> set (fst (collect_sessions lookup now sids)) \<Longrightarrow> lookup (session_id e) \<noteq> None"
proof -
  assume "e \<in> set (fst (collect_sessions lookup now sids))"
  then have "session_id e \<in> set (map session_id (fst (collect_sessions lookup now sids)))"
    by simp
  then show ?thesis by (simp add: collect_result)
qed

lemma list_redis:
  assumes redis: "use_redis cfg"
    and idx: "user_index_id email sub_arg = Some idx" "idx \<noteq> []"
    and stale: "stale = filter (\<lambda>sid. get_session cfg st sid now = None) (listed_sids cfg st idx sub_arg)"
  shows "map session_id (fst (list_user_sessions cfg st email sub_arg now))
           = filter (\<lambda>sid. get_session cfg st sid now \<noteq> None) (listed_sids cfg st idx sub_arg)"
    and "zget k (redis_usess (snd (list_user_sessions cfg st email sub_arg now)))
           = (if k = idx then filter (\<lambda>(m, s). m \<notin> set stale) (zget idx (redis_usess st))
              else zget k (redis_usess st))"
    and "redis_sess (snd (list_user_sessions cfg st email sub_arg now)) = redis_sess st"
    and "stale \<noteq> [] \<Longrightarrow> zget idx (redis_usess (snd (list_user_sessions cfg st email sub_arg now))) = []
         \<Longrightarrow> map_of (redis_usess (snd (list_user_sessions cfg st email sub_arg now))) idx = None"
proof -
  let ?sids = "listed_sids cfg st idx sub_arg"
  let ?lookup = "\<lambda>sid. get_session cfg st sid now"
  obtain result stale' where c: "collect_sessions ?lookup now ?sids = (result, stale')"
    by (cases "collect_sessions ?lookup now ?sids")
  have r: "map session_id result = filter (\<lambda>sid. ?lookup sid \<noteq> None) ?sids"
    using collect_result [of ?lookup now ?sids] c by simp
  have s: "stale' = stale"
    using collect_stale [of ?lookup now ?sids] c stale by simp
  have run: "list_user_sessions cfg st email sub_arg now =
      (if stale \<noteq> [] then
         (result, st\<lparr>redis_usess :=
            (if zcard idx (zrem idx stale (redis_usess st)) = 0
             then zdelete idx (zrem idx stale (redis_usess st))
             else zrem idx stale (redis_usess st))\<rparr>)
       else (result, st))"
    using redis idx by (simp add: list_user_sessions_def truthy_def Let_def c s)
  show "map session_id (fst (list_user_sessions cfg st email sub_arg now))
           = filter (\<lambda>sid. ?lookup sid \<noteq> None) ?sids"
    by (simp add: run r)
  show "zget k (redis_usess (snd (list_user_sessions cfg st email sub_arg now)))
           = (if k = idx then filter (\<lambda>(m, s). m \<notin> set stale) (zget idx (redis_usess st))
              else zget k (redis_usess st))"
    by (cases "stale = []") (simp_all add: run zget_zrem zget_zdelete zcard_def)
  show "redis_sess (snd (list_user_sessions cfg st email sub_arg now)) = redis_sess st"
    by (simp add: run)
  show "stale \<noteq> [] \<Longrightarrow> zget idx (redis_usess (snd (list_user_sessions cfg st email sub_arg now))) = []
         \<Longrightarrow> map_of (redis_usess (snd (list_user_sessions cfg st email sub_arg now))) idx = None"
    by (simp add: run zget_zrem zget_zdelete zcard_def zdelete_def zrem_def zput_def
          AList.delete_conv' split: if_splits)
qed


lemma zrange_from:
  "0 \<le> s \<Longrightarrow> zrange k s (- 1) zs = drop (nat s) (map fst (zget k zs))"
  by (auto simp add: zrange_def Let_def)

lemma fetch_idx_window:
  assumes "0 < SESSION_LIST_RETURN_LIMIT cfg"
  shows "fetch_idx cfg st idx =
           rev (drop (length (zget idx (redis_usess st)) - nat (SESSION_LIST_RETURN_LIMIT cfg))
                     (map fst (zget idx (redis_usess st))))"
proof -
  let ?z = "zget idx (redis_usess st)"
  let ?L = "SESSION_LIST_RETURN_LIMIT cfg"
  have n: "nat (max 0 (int (length ?z) - ?L)) = length ?z - nat ?L"
    using assms by (simp add: max_def nat_diff_distrib')
  show ?thesis
  proof (cases "?z = []")
    case True
    then show ?thesis by (simp add: fetch_idx_def zcard_def)
  next
    case False
    then show ?thesis
      by (simp add: fetch_idx_def zcard_def Let_def zrange_from n)
  qed
qed

lemma window_not_Nil:
  assumes "z \<noteq> []" and "0 < L"
  shows "drop (length z - nat L) (map fst z) \<noteq> []"
  using assms by (cases z) auto

lemma listed_sids_own:
  assumes "zget idx (redis_usess st) \<noteq> []" and "0 < SESSION_LIST_RETURN_LIMIT cfg"
  shows "listed_sids cfg st idx sub_arg =
           rev (drop (length (zget idx (redis_usess st)) - nat (SESSION_LIST_RETURN_LIMIT cfg))
                     (map fst (zget idx (redis_usess st))))"
  using window_not_Nil [OF assms]
  by (simp add: listed_sids_def Let_def fetch_idx_window [OF assms(2)])

lemma list_memory:
  assumes "\<not> use_redis cfg"
  shows "snd (list_user_sessions cfg st email sub_arg now) = st"
  using assms by (simp add: list_user_sessions_def Let_def split: prod.splits)

lemma collect_live_pair:
  "collect_sessions lookup now sids = (r, s) \<Longrightarrow> e \<in> set r \<Longrightarrow> lookup (session_id e) = None \<Longrightarrow> False"
  using collect_live [of e lookup now sids] by simp

lemma list_result_live:
  assumes "e \<in> set (fst (list_user_sessions cfg st email sub_arg now))"
  shows "get_session cfg st (session_id e) now \<noteq> None"
  using assms
  by (auto simp add: list_user_sessions_def Let_def split: prod.splits if_splits
        dest: collect_live_pair)

text \<open>
  Claim C2 fails in two ways. In memory mode \<^verbatim>\<open>list_user_sessions\<close> skips a member without
  a record and leaves the index as it is: the stale member \<open>s1\<close> is still in the index
  after the call. In Redis mode only the \<^verbatim>\<open>SESSION_LIST_RETURN_LIMIT\<close> highest-ranked
  members are read: with a limit of 1 the stale member \<open>s1\<close>, ranked below the live
  \<open>s2\<close>, is neither seen nor removed.
\<close>

theorem list_user_sessions_stale_left_counterexample:
  "list_user_sessions cfg_memory memory_stale_store None (Some ''u'') 100 = ([], memory_stale_store)
   \<and> index_members cfg_memory memory_stale_store ''u'' = [''s1'']
   \<and> get_session cfg_memory memory_stale_store ''s1'' 100 = None
   \<and> map session_id (fst (list_user_sessions cfg_limit1 old_stale_store None (Some ''u'') 100)) = [''s2'']
   \<and> snd (list_user_sessions cfg_limit1 old_stale_store None (Some ''u'') 100) = old_stale_store
   \<and> index_members cfg_limit1 old_stale_store ''u'' = [''s1'', ''s2'']
   \<and> get_session cfg_limit1 old_stale_store ''s1'' 100 = None"
  by (simp add: list_user_sessions_def idx_u truthy_def cfg_memory_def cfg_redis_def cfg_limit1_def
        memory_stale_store_def old_stale_store_def empty_store_def py_slice_from_def get_session_def
        index_members_def listed_sids_def fetch_idx_def zcard_def zget_def zrange_def redis_get_def
        session_entry_def Let_def)

text \<open>
  Claim C2, amended. Every entry returned by \<^verbatim>\<open>list_user_sessions\<close> resolves to a live
  session record, in both backends. In Redis mode, for an identity whose index is not
  empty and a positive \<^verbatim>\<open>SESSION_LIST_RETURN_LIMIT\<close>, the call reads the window made of the
  \<^verbatim>\<open>SESSION_LIST_RETURN_LIMIT\<close> highest-ranked members of that index. It returns, newest
  first, exactly the members of the window that resolve to a live record; it removes
  the other members of the window from the index in the same call, and no key is left
  behind when the index becomes empty; the session records are untouched. Members
  below the window are not examined. When the whole index fits in the window, every
  member left in the index resolves to a live record. In memory mode the store is not
  modified.
\<close>

theorem list_user_sessions_heals_window:
  assumes idx: "user_index_id email sub_arg = Some idx" "idx \<noteq> []"
    and own: "use_redis cfg \<longrightarrow> zget idx (redis_usess st) \<noteq> [] \<and> 0 < SESSION_LIST_RETURN_LIMIT cfg"
    and run: "list_user_sessions cfg st email sub_arg now = (result, st')"
    and window: "window = drop (length (zget idx (redis_usess st)) - nat (SESSION_LIST_RETURN_LIMIT cfg))
                               (map fst (zget idx (redis_usess st)))"
    and stale: "stale = filter (\<lambda>sid. get_session cfg st sid now = None) window"
  shows "(\<forall>e \<in> set result. get_session cfg st (session_id e) now \<noteq> None)
       \<and> (if use_redis cfg then
            map session_id result = filter (\<lambda>sid. get_session cfg st sid now \<noteq> None) (rev window)
          \<and> zget idx (redis_usess st') = filter (\<lambda>(m, s). m \<notin> set stale) (zget idx (redis_usess st))
          \<and> (zget idx (redis_usess st') = [] \<longrightarrow> map_of (redis_usess st') idx = None)
          \<and> redis_sess st' = redis_sess st
          \<and> (length (zget idx (redis_usess st)) \<le> nat (SESSION_LIST_RETURN_LIMIT cfg)
               \<longrightarrow> (\<forall>m \<in> fst ` set (zget idx (redis_usess st')). get_session cfg st' m now \<noteq> None))
          else st' = st)"
proof -
  have res: "result = fst (list_user_sessions cfg st email sub_arg now)"
    and st': "st' = snd (list_user_sessions cfg st email sub_arg now)"
    using run by simp_all
  have live: "\<forall>e \<in> set result. get_session cfg st (session_id e) now \<noteq> None"
    unfolding res using list_result_live by blast
  show ?thesis
  proof (cases "use_redis cfg")
    case False
    then show ?thesis using live list_memory [OF False] st' by simp
  next
    case True
    let ?z = "zget idx (redis_usess st)"
    let ?dead = "\<lambda>sid. get_session cfg st sid now = None"
    have z: "?z \<noteq> []" and lim: "0 < SESSION_LIST_RETURN_LIMIT cfg"
      using own True by simp_all
    have sids: "listed_sids cfg st idx sub_arg = rev window"
      unfolding window by (rule listed_sids_own [OF z lim])
    define stale' where "stale' = filter ?dead (listed_sids cfg st idx sub_arg)"
    have same: "set stale' = set stale"
      by (simp add: stale'_def stale sids)
    note facts = list_redis [OF True idx stale'_def]
    have a: "map session_id result = filter (\<lambda>sid. get_session cfg st sid now \<noteq> None) (rev window)"
      unfolding res using facts(1) by (simp add: sids)
    have b: "zget idx (redis_usess st') = filter (\<lambda>(m, s). m \<notin> set stale) ?z"
      unfolding st' using facts(2) [of idx] by (simp add: same)
    have c: "zget idx (redis_usess st') = [] \<longrightarrow> map_of (redis_usess st') idx = None"
    proof
      assume empty: "zget idx (redis_usess st') = []"
      have "stale' \<noteq> []"
      proof
        assume "stale' = []"
        then have "set stale = {}" using same by simp
        then have "filter (\<lambda>(m, s). m \<notin> set stale) ?z = ?z" by simp
        with b empty z show False by simp
      qed
      then show "map_of (redis_usess st') idx = None"
        using facts(4) empty unfolding st' by blast
    qed
    have d: "redis_sess st' = redis_sess st"
      unfolding st' by (rule facts(3))
    have e: "length ?z \<le> nat (SESSION_LIST_RETURN_LIMIT cfg)
               \<longrightarrow> (\<forall>m \<in> fst ` set (zget idx (redis_usess st')). get_session cfg st' m now \<noteq> None)"
    proof (intro impI ballI)
      fix m
      assume w: "length ?z \<le> nat (SESSION_LIST_RETURN_LIMIT cfg)"
        and m: "m \<in> fst ` set (zget idx (redis_usess st'))"
      have whole: "window = map fst ?z" using w by (simp add: window)
      from m obtain s where ms: "(m, s) \<in> set ?z" and ns: "m \<notin> set stale"
        by (auto simp add: b)
      from ms have "m \<in> set window" by (force simp add: whole)
      with ns have "get_session cfg st m now \<noteq> None" by (simp add: stale)
      then show "get_session cfg st' m now \<noteq> None"
        using True by (simp add: get_session_def d)
    qed
    from True live a b c d e show ?thesis by simp
  qed
qed

theorem list_user_sessions_heals_window_witness:
  "map session_id (fst (list_user_sessions cfg_redis drifted_store None (Some ''u'') 100)) = [''s1'']
   \<and> zget ''u'' (redis_usess (snd (list_user_sessions cfg_redis drifted_store None (Some ''u'') 100)))
       = [(''s1'', 1)]
   \<and> get_session cfg_redis (snd (list_user_sessions cfg_redis drifted_store None (Some ''u'') 100)) ''s1'' 100
       \<noteq> None"
proof -
  have ne: "''u'' \<noteq> []" by simp
  have z: "zget ''u'' (redis_usess drifted_store) = [(''s1'', 1), (''s2'', 2)]"
    by (simp add: zget_def drifted_store_def empty_store_def)
  have redis: "use_redis cfg_redis" and lim: "SESSION_LIST_RETURN_LIMIT cfg_redis = 20"
    by (simp_all add: cfg_redis_def)
  have own: "use_redis cfg_redis \<longrightarrow>
      zget ''u'' (redis_usess drifted_store) \<noteq> [] \<and> 0 < SESSION_LIST_RETURN_LIMIT cfg_redis"
    by (simp add: z lim)
  have g1: "get_session cfg_redis drifted_store ''s1'' 100 = Some payload"
    and g2: "get_session cfg_redis drifted_store ''s2'' 100 = None"
    by (simp_all add: get_session_def cfg_redis_def drifted_store_def empty_store_def redis_get_def)
  show ?thesis
    using list_user_sessions_heals_window [OF idx_u ne own prod.collapse [symmetric] refl refl, of 100]
    by (auto simp add: g1 g2 z redis lim)
qed

subsection \<open>OAuth state\<close>

text \<open>
  Claim C4. A state token saved with \<^verbatim>\<open>save_state\<close> is redeemed exactly once: the first
  \<^verbatim>\<open>pop_state\<close> (in Redis mode, made before the keys' TTL of \<open>STATE_TTL\<close> seconds has
  run out) returns the stored metadata and the verifier, and a second \<^verbatim>\<open>pop_state\<close> on
  the same token returns \<^verbatim>\<open>(None, None)\<close> at any time, inside the TTL window or not.
\<close>

theorem pop_state_once:
  assumes "use_redis cfg \<longrightarrow> t1 < t0 + of_int STATE_TTL"
  shows "fst (pop_state cfg (save_state cfg sd state uri verifier prov t0) state t1) =
           (Some \<lparr>redirect_uri = uri, meta_exp = py_int (t0 + of_int STATE_TTL), meta_provider = prov\<rparr>,
            Some verifier)
         \<and> fst (pop_state cfg (snd (pop_state cfg (save_state cfg sd state uri verifier prov t0) state t1)) state t2)
           = (None, None)"
  using assms
  by (simp add: pop_state_def save_state_def Let_def redis_get_set_same redis_get_delete_same)

theorem pop_state_once_witness:
  "fst (pop_state cfg_redis (save_state cfg_redis empty_state_db ''tok'' ''https://app/cb'' ''ver'' ''google'' 1000) ''tok'' 1100) =
           (Some \<lparr>redirect_uri = ''https://app/cb'', meta_exp = 1600, meta_provider = ''google''\<rparr>, Some ''ver'')
   \<and> fst (pop_state cfg_redis (snd (pop_state cfg_redis (save_state cfg_redis empty_state_db ''tok'' ''https://app/cb'' ''ver'' ''google'' 1000) ''tok'' 1100)) ''tok'' 1200)
           = (None, None)"
  using pop_state_once [of cfg_redis 1100 1000 empty_state_db "''tok''" "''https://app/cb''" "''ver''" "''google''" 1200]
  by (simp add: cfg_redis_def STATE_TTL_def py_int_def)

text \<open>
  Claim C5 fails in memory mode: \<^verbatim>\<open>pop_state\<close> pops the dictionaries without looking at
  \<^verbatim>\<open>exp\<close>. A token saved at time 1000 (expiry 1600) and popped at time 5000 is returned
  with its metadata and verifier, while a token that was never saved gives
  \<^verbatim>\<open>(None, None)\<close>.
\<close>

theorem pop_state_expired_memory_counterexample:
  "fst (pop_state cfg_memory (save_state cfg_memory empty_state_db ''tok'' ''https://app/cb'' ''ver'' ''google'' 1000) ''tok'' 5000)
     = (Some \<lparr>redirect_uri = ''https://app/cb'', meta_exp = 1600, meta_provider = ''google''\<rparr>, Some ''ver'')
   \<and> fst (pop_state cfg_memory (save_state cfg_memory empty_state_db ''tok'' ''https://app/cb'' ''ver'' ''google'' 1000) ''never'' 5000)
     = (None, None)"
  by (simp add: pop_state_def save_state_def cfg_memory_def cfg_redis_def empty_state_db_def
        STATE_TTL_def py_int_def)

text \<open>
  Claim C5, amended. Once the backend has reclaimed an expired token, it cannot be told
  from a token that was never saved: both give \<^verbatim>\<open>(None, None)\<close>. In Redis mode the
  token is reclaimed when the TTL of its keys, \<open>STATE_TTL\<close> seconds from the save, has
  run out; in memory mode it is reclaimed by a run of \<^verbatim>\<open>clean_expired\<close> at a time after
  its \<^verbatim>\<open>exp\<close>. (Until then the memory store returns the record, and the callers compare
  its \<^verbatim>\<open>exp\<close> with the clock.)
\<close>

theorem pop_state_expired_as_unknown:
  assumes saved: "sd1 = save_state cfg sd state uri verifier prov t0"
    and reclaimed: "if use_redis cfg then sd2 = sd1 \<and> t0 + of_int STATE_TTL \<le> now
                    else sd2 = clean_expired cfg sd1 sweep \<and> of_int (py_int (t0 + of_int STATE_TTL)) < sweep"
    and unknown: "redis_get other now (redis_state sd2) = None" "redis_get other now (redis_codev sd2) = None"
                 "state_store sd2 other = None" "code_verifiers sd2 other = None"
  shows "fst (pop_state cfg sd2 state now) = (None, None)
         \<and> fst (pop_state cfg sd2 other now) = fst (pop_state cfg sd2 state now)"
proof (cases "use_redis cfg")
  case True
  with saved reclaimed unknown show ?thesis
    by (simp add: pop_state_def save_state_def Let_def redis_get_set_same)
next
  case False
  with saved reclaimed unknown show ?thesis
    by (simp add: pop_state_def save_state_def Let_def clean_expired_def obsolete_def)
qed

theorem pop_state_expired_as_unknown_witness:
  "fst (pop_state cfg_memory
         (clean_expired cfg_memory
            (save_state cfg_memory empty_state_db ''tok'' ''https://app/cb'' ''ver'' ''google'' 1000) 2000)
         ''tok'' 5000) = (None, None)
   \<and> fst (pop_state cfg_redis
         (save_state cfg_redis empty_state_db ''tok'' ''https://app/cb'' ''ver'' ''google'' 1000)
         ''tok'' 1600) = (None, None)"
proof -
  have mem: "fst (pop_state cfg_memory
         (clean_expired cfg_memory
            (save_state cfg_memory empty_state_db ''tok'' ''https://app/cb'' ''ver'' ''google'' 1000) 2000)
         ''tok'' 5000) = (None, None)"
    using pop_state_expired_as_unknown [of _ cfg_memory empty_state_db "''tok''" "''https://app/cb''"
        "''ver''" "''google''" 1000 _ 5000 2000 "''never''", OF refl]
    by (simp add: cfg_memory_def cfg_redis_def STATE_TTL_def py_int_def clean_expired_def
          save_state_def empty_state_db_def obsolete_def redis_get_def)
  have red: "fst (pop_state cfg_redis
         (save_state cfg_redis empty_state_db ''tok'' ''https://app/cb'' ''ver'' ''google'' 1000)
         ''tok'' 1600) = (None, None)"
    using pop_state_expired_as_unknown [of _ cfg_redis empty_state_db "''tok''" "''https://app/cb''"
        "''ver''" "''google''" 1000 _ 1600 0 "''never''", OF refl]
    by (simp add: cfg_redis_def STATE_TTL_def save_state_def empty_state_db_def redis_get_def
          redis_set_def)
  from mem red show ?thesis by simp
qed

subsection \<open>Repair job\<close>

lemma cleanup_user_key_dry: "fst (cleanup_user_key True now k acc) = fst acc"
  by (simp add: cleanup_user_key_def Let_def split: prod.splits)

lemma cleanup_user_key_dry_removed:
  "orphaned_sessions_removed (snd (cleanup_user_key True now k acc)) = orphaned_sessions_removed (snd acc)
   \<and> empty_user_sessions_removed (snd (cleanup_user_key True now k acc)) = empty_user_sessions_removed (snd acc)"
  by (simp add: cleanup_user_key_def Let_def split: prod.splits)

lemma fold_cleanup_dry: "fst (fold (cleanup_user_key True now) ks acc) = fst acc"
  by (induction ks arbitrary: acc) (simp_all add: cleanup_user_key_dry)

lemma fold_cleanup_dry_removed:
  "orphaned_sessions_removed (snd (fold (cleanup_user_key True now) ks acc)) = orphaned_sessions_removed (snd acc)
   \<and> empty_user_sessions_removed (snd (fold (cleanup_user_key True now) ks acc)) = empty_user_sessions_removed (snd acc)"
  by (induction ks arbitrary: acc) (simp_all add: cleanup_user_key_dry_removed)

text \<open>
  Claim C8. In report-only mode (\<^verbatim>\<open>dry_run\<close> true) neither the orphan pass nor the
  bounded-age sweep changes the store: the session records and every index are, after
  the run, exactly what they were before it. The removal counters stay as they were,
  and the sweep, which only logs in this mode, leaves all counters untouched.
\<close>

theorem dry_run_no_mutation:
  "fst (cleanup_orphaned_user_sessions conn True now (st, stats)) = st
   \<and> fst (cleanup_expired_sessions conn True max_age_days now (st, stats)) = st
   \<and> orphaned_sessions_removed (snd (cleanup_orphaned_user_sessions conn True now (st, stats)))
       = orphaned_sessions_removed stats
   \<and> empty_user_sessions_removed (snd (cleanup_orphaned_user_sessions conn True now (st, stats)))
       = empty_user_sessions_removed stats
   \<and> snd (cleanup_expired_sessions conn True max_age_days now (st, stats)) = stats"
  by (simp add: cleanup_orphaned_user_sessions_def cleanup_expired_sessions_def Let_def
        fold_cleanup_dry fold_cleanup_dry_removed)

lemma cleanup_user_key_sess: "redis_sess (fst (cleanup_user_key dry now k acc)) = redis_sess (fst acc)"
  by (simp add: cleanup_user_key_def Let_def split: prod.splits)

lemma filter_orphans:
  "filter (\<lambda>(m, s). m \<notin> set (filter (\<lambda>x. \<not> P x) (map fst z))) z = filter (\<lambda>(m, s). P m) z"
  by (rule filter_cong) force+

lemma cleanup_user_key_zget:
  "zget k' (redis_usess (fst (cleanup_user_key False now k (st, stats)))) =
     (if k' = k then filter (\<lambda>(m, s). redis_exists m now (redis_sess st)) (zget k (redis_usess st))
      else zget k' (redis_usess st))"
proof -
  let ?z = "zget k (redis_usess st)"
  let ?P = "\<lambda>m. redis_exists m now (redis_sess st)"
  let ?orph = "filter (\<lambda>x. \<not> ?P x) (map fst ?z)"
  let ?valid = "filter ?P (map fst ?z)"
  have orph: "filter (\<lambda>(m, s). m \<notin> set ?orph) ?z = filter (\<lambda>(m, s). ?P m) ?z"
    by (rule filter_orphans)
  have none: "?orph = [] \<Longrightarrow> filter (\<lambda>(m, s). ?P m) ?z = ?z"
    by (auto simp add: filter_empty_conv filter_id_conv)
  have allorph: "?valid = [] \<Longrightarrow> filter (\<lambda>(m, s). ?P m) ?z = []"
    by (auto simp add: filter_empty_conv)
  have step: "zget k' (redis_usess (fst (cleanup_user_key False now k (st, stats)))) =
     (if k' = k then
        (if ?valid = [] then [] else if ?orph = [] then ?z else filter (\<lambda>(m, s). m \<notin> set ?orph) ?z)
      else zget k' (redis_usess st))"
    by (simp add: cleanup_user_key_def Let_def zrange_all zget_zrem zget_zdelete comp_def
          split: prod.splits)
  show ?thesis
  proof (cases "?valid = []")
    case True
    then show ?thesis using allorph by (simp add: step)
  next
    case False
    then show ?thesis
      using none orph by (cases "?orph = []") (simp_all add: step)
  qed
qed

lemma fold_cleanup_sess:
  "redis_sess (fst (fold (cleanup_user_key dry now) ks acc)) = redis_sess (fst acc)"
  by (induction ks arbitrary: acc) (simp_all add: cleanup_user_key_sess)

lemma fold_cleanup_zget:
  "zget k (redis_usess (fst (fold (cleanup_user_key False now) ks (st, stats)))) =
     (if k \<in> set ks then filter (\<lambda>(m, s). redis_exists m now (redis_sess st)) (zget k (redis_usess st))
      else zget k (redis_usess st))"
proof (induction ks arbitrary: st stats)
  case Nil
  then show ?case by simp
next
  case (Cons a ks)
  obtain st1 stats1 where step: "cleanup_user_key False now a (st, stats) = (st1, stats1)"
    by (cases "cleanup_user_key False now a (st, stats)")
  have sess: "redis_sess st1 = redis_sess st"
    using cleanup_user_key_sess [of False now a "(st, stats)"] step by simp
  have z1: "zget k' (redis_usess st1) =
     (if k' = a then filter (\<lambda>(m, s). redis_exists m now (redis_sess st)) (zget a (redis_usess st))
      else zget k' (redis_usess st))" for k'
    using cleanup_user_key_zget [of k' now a st stats] step by simp
  have idem: "filter (\<lambda>(m, s). redis_exists m now (redis_sess st))
                (filter (\<lambda>(m, s). redis_exists m now (redis_sess st)) z)
              = filter (\<lambda>(m, s). redis_exists m now (redis_sess st)) z" for z :: zset
    by (induction z) auto
  show ?case
    using Cons.IH [of st1 stats1] by (simp add: step sess z1 idem del: filter_filter)
qed

lemma all_live_after_pass:
  assumes "conn"
  shows "all_live now (fst (cleanup_orphaned_user_sessions conn False now (st, stats)))"
proof -
  let ?ks = "map fst (redis_usess st)"
  let ?st1 = "fst (fold (cleanup_user_key False now) ?ks (st, stats))"
  have sess: "redis_sess ?st1 = redis_sess st"
    using fold_cleanup_sess [of False now ?ks "(st, stats)"] by simp
  have "\<forall>m \<in> fst ` set (zget k (redis_usess ?st1)). redis_exists m now (redis_sess st)" for k
  proof (cases "k \<in> set ?ks")
    case True
    then show ?thesis by (auto simp add: fold_cleanup_zget)
  next
    case False
    then have "zget k (redis_usess st) = []" by (simp add: zget_not_key)
    with False show ?thesis by (simp add: fold_cleanup_zget)
  qed
  then show ?thesis
    using assms by (simp add: all_live_def cleanup_orphaned_user_sessions_def sess)
qed

lemma cleanup_user_key_all_live:
  assumes "all_live now st"
  shows "fst (cleanup_user_key dry now k (st, stats)) = st
         \<and> orphaned_sessions_found (snd (cleanup_user_key dry now k (st, stats))) = orphaned_sessions_found stats"
proof -
  let ?z = "zget k (redis_usess st)"
  let ?P = "\<lambda>m. redis_exists m now (redis_sess st)"
  have live: "\<forall>m \<in> set (map fst ?z). ?P m"
    using assms by (simp add: all_live_def)
  then have orph: "filter (\<lambda>x. \<not> ?P x) (map fst ?z) = []"
    by (simp add: filter_empty_conv)
  have valid: "filter ?P (map fst ?z) = map fst ?z"
    using live by (simp add: filter_id_conv)
  show ?thesis
    by (simp add: cleanup_user_key_def Let_def zrange_all orph valid comp_def)
qed

lemma fold_cleanup_all_live:
  assumes "all_live now st"
  shows "fst (fold (cleanup_user_key dry now) ks (st, stats)) = st
         \<and> orphaned_sessions_found (snd (fold (cleanup_user_key dry now) ks (st, stats))) = orphaned_sessions_found stats"
proof (induction ks arbitrary: stats)
  case Nil
  then show ?case by simp
next
  case (Cons a ks)
  obtain stats1 where step: "cleanup_user_key dry now a (st, stats) = (st, stats1)"
    and found: "orphaned_sessions_found stats1 = orphaned_sessions_found stats"
    using cleanup_user_key_all_live [OF assms, of dry a stats]
    by (cases "cleanup_user_key dry now a (st, stats)") auto
  show ?case using Cons.IH [of stats1] by (simp add: step found)
qed

text \<open>
  Claim C7. After a mutating orphan pass, a second mutating pass made by a new
  \<^verbatim>\<open>SessionCleanup\<close> object (counters at zero) reports no orphan, provided nothing drifted
  in between: every session key exists at the time of the second pass iff it existed at
  the time of the first. More generally the second pass adds nothing to the counter it
  starts from, and changes nothing in the store.
\<close>

theorem cleanup_twice_no_orphans:
  assumes conn: "conn"
    and first: "run1 = cleanup_orphaned_user_sessions conn False now1 (st, stats)"
    and no_drift: "\<forall>sid. redis_exists sid now2 (redis_sess st) = redis_exists sid now1 (redis_sess st)"
  shows "orphaned_sessions_found (snd (cleanup_orphaned_user_sessions conn False now2 (fst run1, init_stats))) = 0
       \<and> orphaned_sessions_found (snd (cleanup_orphaned_user_sessions conn False now2 (fst run1, stats2)))
           = orphaned_sessions_found stats2
       \<and> fst (cleanup_orphaned_user_sessions conn False now2 (fst run1, stats2)) = fst run1"
proof -
  have live1: "all_live now1 (fst run1)"
    unfolding first using conn by (rule all_live_after_pass)
  have sess: "redis_sess (fst run1) = redis_sess st"
    unfolding first using fold_cleanup_sess [of False now1 "map fst (redis_usess st)" "(st, stats)"]
    by (simp add: cleanup_orphaned_user_sessions_def)
  have live2: "all_live now2 (fst run1)"
    using live1 no_drift by (simp add: all_live_def sess)
  show ?thesis
    using fold_cleanup_all_live [OF live2, of False "map fst (redis_usess (fst run1))" init_stats]
      fold_cleanup_all_live [OF live2, of False "map fst (redis_usess (fst run1))" stats2] conn
    by (simp add: cleanup_orphaned_user_sessions_def init_stats_def)
qed

theorem cleanup_twice_no_orphans_witness:
  "orphaned_sessions_found (snd (cleanup_orphaned_user_sessions True False 100 (drifted_store, init_stats))) = 1
   \<and> orphaned_sessions_found
        (snd (cleanup_orphaned_user_sessions True False 200
               (fst (cleanup_orphaned_user_sessions True False 100 (drifted_store, init_stats)), init_stats))) = 0"
proof -
  have no_drift: "\<forall>sid. redis_exists sid 200 (redis_sess drifted_store)
                      = redis_exists sid 100 (redis_sess drifted_store)"
    by (simp add: drifted_store_def empty_store_def redis_exists_def redis_get_def)
  have found: "orphaned_sessions_found
      (snd (cleanup_orphaned_user_sessions True False 100 (drifted_store, init_stats))) = 1"
    by (simp add: cleanup_orphaned_user_sessions_def cleanup_user_key_def drifted_store_def
          empty_store_def init_stats_def zrange_def zget_def redis_exists_def redis_get_def Let_def)
  show ?thesis
    using found cleanup_twice_no_orphans [OF TrueI refl no_drift, of init_stats init_stats] by simp
qed

end
